theory Spec2Isabelle
  imports Main "HOL-Library.List_Lexorder" "HOL-Library.Char_ord"
begin

section \<open>The external values handled by \<open>nada_array.py\<close>\<close>

text \<open>
  A party is identified by its \<open>name\<close>. An expression-graph object is what the
  traversal of \<open>_gather_parties\<close> can tell apart: an instance of \<open>Input\<close> (with its
  \<open>party\<close> attribute, possibly \<open>None\<close>), an instance of \<open>Literal\<close>, or any other
  object. Every object carries its remaining attributes as an association list from
  attribute name to attribute value, so that \<open>hasattr\<close> is a lookup that may fail.
  The graph is a finite tree here: the source assumes an acyclic graph, and shared
  sub-graphs contribute the same names however often they are visited.
\<close>

datatype party = Party (name: string)

datatype node =
    Input "party option" "(string \<times> node) list"
  | Literal "(string \<times> node) list"
  | Obj "(string \<times> node) list"

text \<open>
  The values that client code can hand to the array. \<open>SecretInteger\<close> is an instance
  of \<open>nada_dsl.SecretInteger\<close> with its attributes, \<open>AuditSecretInteger\<close> an instance of
  \<open>audit.SecretInteger\<close> with its \<open>parties\<close> list. A generator holds the items it has
  yet to yield. The other constructors stand for values of any other type.
\<close>

datatype pyval =
    SecretInteger "(string \<times> node) list"
  | AuditSecretInteger "party list"
  | PyList "pyval list"
  | PyGenerator "pyval list"
  | PyTuple "pyval list"
  | PyInt int
  | PyNone

datatype pytype =
  SecretIntegerT | AuditSecretIntegerT | ListT | GeneratorT | TupleT | IntT | NoneT

fun type_of :: "pyval \<Rightarrow> pytype" where
  "type_of (SecretInteger _) = SecretIntegerT"
| "type_of (AuditSecretInteger _) = AuditSecretIntegerT"
| "type_of (PyList _) = ListT"
| "type_of (PyGenerator _) = GeneratorT"
| "type_of (PyTuple _) = TupleT"
| "type_of (PyInt _) = IntT"
| "type_of PyNone = NoneT"

datatype error = TypeError | IndexError | OverflowError

section \<open>Provenance resolution\<close>

definition secret_int_types :: "pytype set" where
  "secret_int_types = {SecretIntegerT, AuditSecretIntegerT}"

definition link_attrs :: "string list" where
  "link_attrs = [''inner'', ''left'', ''right'', ''arg_0'', ''arg_1'', ''this'']"

text \<open>
  The inner function \<open>traverse\<close> of the module-level \<open>_gather_parties\<close>. The source
  adds to the set \<open>party_attributes\<close> of the enclosing call; the set is threaded
  through here. The loop over the six attribute names is a \<open>fold\<close> in their order.
\<close>

function traverse :: "node \<Rightarrow> string set \<Rightarrow> string set" where
  "traverse (Input p attrs) party_attributes =
     (case p of Some q \<Rightarrow> insert (name q) party_attributes | None \<Rightarrow> party_attributes)"
| "traverse (Literal attrs) party_attributes = party_attributes"
| "traverse (Obj attrs) party_attributes =
     fold (\<lambda>attr acc. case map_of attrs attr of Some n \<Rightarrow> traverse n acc | None \<Rightarrow> acc)
       link_attrs party_attributes"
  by pat_completeness auto
termination
proof (relation "measure (\<lambda>(n, acc). size n)")
  show "wf (measure (\<lambda>(n, acc). size n))"
    by simp
next
  fix attrs :: "(string \<times> node) list" and party_attributes xa :: "string set" and x x2
  assume "map_of attrs x = Some x2"
  then have "size x2 < Suc (size_list (size_prod (\<lambda>_. 0) size) attrs)"
    by (induction attrs) (auto split: if_splits)
  then show "((x2, xa), Obj attrs, party_attributes) \<in> measure (\<lambda>(n, acc). size n)"
    by simp
qed

definition gather_parties :: "node \<Rightarrow> string set" where
  "gather_parties n = traverse n {}"

text \<open>
  The static method \<open>NadaArray._gather_parties\<close>. A \<open>SecretInteger\<close> is itself the
  root of the traversal; it is neither an \<open>Input\<close> nor a \<open>Literal\<close>.
\<close>

fun gather_parties_obj :: "pyval \<Rightarrow> string set" where
  "gather_parties_obj (AuditSecretInteger ps) = set (map name ps)"
| "gather_parties_obj (SecretInteger attrs) = gather_parties (Obj attrs)"
| "gather_parties_obj _ = {}"

section \<open>The array\<close>

record NadaArray =
  data :: "pyval list"
  parties :: "string set"

text \<open>
  A mutating method either returns, leaving the array in a new state, or raises,
  leaving the array in the state reached when the exception left the method.
\<close>

datatype outcome = Done NadaArray | Raised error NadaArray

definition check_type :: "pyval \<Rightarrow> error + unit" where
  "check_type item = (if type_of item \<notin> secret_int_types then Inl TypeError else Inr ())"

definition update_parties :: "NadaArray \<Rightarrow> NadaArray" where
  "update_parties a = a\<lparr>parties := (\<Union>obj \<in> set (data a). gather_parties_obj obj)\<rparr>"

definition add_parties :: "NadaArray \<Rightarrow> pyval \<Rightarrow> NadaArray" where
  "add_parties a item = a\<lparr>parties := parties a \<union> gather_parties_obj item\<rparr>"

definition get_parties :: "NadaArray \<Rightarrow> string set" where
  "get_parties a = parties a"

definition len :: "NadaArray \<Rightarrow> nat" where
  "len a = length (data a)"

definition append_item :: "NadaArray \<Rightarrow> pyval \<Rightarrow> outcome" where
  "append_item a item =
     (case check_type item of
        Inl e \<Rightarrow> Raised e a
      | Inr _ \<Rightarrow> Done (add_parties (a\<lparr>data := data a @ [item]\<rparr>) item))"

text \<open>
  What \<open>extend\<close> iterates over: a list (or another array's sequence), which yields
  its items on every pass, or a generator, which yields them once. \<open>iterate\<close> is
  one complete pass: the items seen and the iterable afterwards.
\<close>

datatype iterable = Reiterable "pyval list" | OneShot "pyval list"

fun iterate :: "iterable \<Rightarrow> pyval list \<times> iterable" where
  "iterate (Reiterable xs) = (xs, Reiterable xs)"
| "iterate (OneShot xs) = (xs, OneShot [])"

text \<open>The \<open>for\<close> loop of \<open>extend\<close>: check each item, then add its parties.\<close>

fun extend_loop :: "NadaArray \<Rightarrow> pyval list \<Rightarrow> outcome" where
  "extend_loop a [] = Done a"
| "extend_loop a (item # items) =
     (case check_type item of
        Inl e \<Rightarrow> Raised e a
      | Inr _ \<Rightarrow> extend_loop (add_parties a item) items)"

definition extend_items :: "NadaArray \<Rightarrow> iterable \<Rightarrow> outcome" where
  "extend_items a it =
     (case extend_loop a (fst (iterate it)) of
        Raised e a' \<Rightarrow> Raised e a'
      | Done a' \<Rightarrow> Done (a'\<lparr>data := data a' @ fst (iterate (snd (iterate it)))\<rparr>))"

text \<open>
  Python's \<open>list.insert\<close>: an index that does not fit the machine's index type
  raises \<open>OverflowError\<close>; any other index is clamped, a negative one counting from
  the end.
\<close>

definition fits_ssize_t :: "int \<Rightarrow> bool" where
  "fits_ssize_t i = (- (2 ^ 63) \<le> i \<and> i < 2 ^ 63)"

definition list_insert :: "pyval list \<Rightarrow> int \<Rightarrow> pyval \<Rightarrow> error + pyval list" where
  "list_insert xs i x =
     (if \<not> fits_ssize_t i then Inl OverflowError
      else let n = int (length xs);
               j = (if i < 0 then (if i + n < 0 then 0 else i + n)
                    else (if i > n then n else i))
           in Inr (take (nat j) xs @ x # drop (nat j) xs))"

definition insert_item :: "NadaArray \<Rightarrow> int \<Rightarrow> pyval \<Rightarrow> outcome" where
  "insert_item a index item =
     (case check_type item of
        Inl e \<Rightarrow> Raised e a
      | Inr _ \<Rightarrow>
          (case list_insert (data a) index item of
             Inl e \<Rightarrow> Raised e a
           | Inr d \<Rightarrow> Done (add_parties (a\<lparr>data := d\<rparr>) item)))"

text \<open>
  Python's list subscript with an integer: a negative index counts from the end,
  and an index outside \<open>-n .. n-1\<close> raises \<open>IndexError\<close>.
\<close>

definition list_index :: "nat \<Rightarrow> int \<Rightarrow> error + nat" where
  "list_index n i =
     (let j = (if i < 0 then i + int n else i)
      in if 0 \<le> j \<and> j < int n then Inr (nat j) else Inl IndexError)"

definition setitem :: "NadaArray \<Rightarrow> int \<Rightarrow> pyval \<Rightarrow> outcome" where
  "setitem a index item =
     (case check_type item of
        Inl e \<Rightarrow> Raised e a
      | Inr _ \<Rightarrow>
          (case list_index (length (data a)) index of
             Inl e \<Rightarrow> Raised e a
           | Inr k \<Rightarrow> Done (update_parties (a\<lparr>data := (data a)[k := item]\<rparr>))))"

definition getitem :: "NadaArray \<Rightarrow> int \<Rightarrow> error + pyval" where
  "getitem a index =
     (case list_index (length (data a)) index of
        Inl e \<Rightarrow> Inl e
      | Inr k \<Rightarrow> Inr (data a ! k))"

definition delitem :: "NadaArray \<Rightarrow> int \<Rightarrow> outcome" where
  "delitem a index =
     (case list_index (length (data a)) index of
        Inl e \<Rightarrow> Raised e a
      | Inr k \<Rightarrow> Done (update_parties (a\<lparr>data := take k (data a) @ drop (Suc k) (data a)\<rparr>)))"

subsection \<open>Construction and concatenation\<close>

text \<open>
  The constructor's treatment of \<open>*args\<close>. With one argument, a list replaces
  \<open>args\<close>; the second test then reads \<open>args[0]\<close> of whatever \<open>args\<close> is by then,
  which raises \<open>IndexError\<close> on an empty list, and replaces \<open>args\<close> by the items of
  a generator found there.
\<close>

definition first :: "pyval list \<Rightarrow> error + pyval" where
  "first xs = (case xs of [] \<Rightarrow> Inl IndexError | x # _ \<Rightarrow> Inr x)"

definition unpack_args :: "pyval list \<Rightarrow> error + pyval list" where
  "unpack_args args =
     (if length args = 1 then
        (let args1 = (case first args of Inr (PyList xs) \<Rightarrow> xs | _ \<Rightarrow> args)
         in case first args1 of
              Inl e \<Rightarrow> Inl e
            | Inr (PyGenerator ys) \<Rightarrow> Inr ys
            | Inr _ \<Rightarrow> Inr args1)
      else Inr args)"

fun init_loop :: "NadaArray \<Rightarrow> pyval list \<Rightarrow> error + NadaArray" where
  "init_loop a [] = Inr a"
| "init_loop a (item # items) =
     (case append_item a item of
        Raised e _ \<Rightarrow> Inl e
      | Done a' \<Rightarrow> init_loop a' items)"

definition init :: "pyval list \<Rightarrow> error + NadaArray" where
  "init args =
     (case unpack_args args of
        Inl e \<Rightarrow> Inl e
      | Inr items \<Rightarrow> init_loop \<lparr>data = [], parties = {}\<rparr> items)"

definition add :: "NadaArray \<Rightarrow> NadaArray \<Rightarrow> error + NadaArray" where
  "add a other = init [PyList (data a @ data other)]"

subsection \<open>The textual summary\<close>

definition digit :: "nat \<Rightarrow> char" where
  "digit d = ''0123456789'' ! d"

fun str_nat :: "nat \<Rightarrow> string" where
  "str_nat n = (if n < 10 then [digit n] else str_nat (n div 10) @ [digit (n mod 10)])"

fun join :: "string \<Rightarrow> string list \<Rightarrow> string" where
  "join sep [] = []"
| "join sep [x] = x"
| "join sep (x # y # ys) = x @ sep @ join sep (y # ys)"

definition quote :: "string \<Rightarrow> string" where
  "quote p = [CHR 0x27] @ p @ [CHR 0x27]"

text \<open>
  \<open>sorted([f"'{p}'" for p in self._parties])\<close>: the quoted names, sorted as quoted
  strings. Quoting is injective, so the result is the sorted list of the set of
  quoted names whatever order the set is iterated in.
\<close>

definition parties_str :: "string set \<Rightarrow> string" where
  "parties_str ps = join '','' (sorted_list_of_set (quote ` ps))"

definition str :: "NadaArray \<Rightarrow> string" where
  "str a = ''NadaArray | len='' @ str_nat (length (data a)) @ '' | parties=['' @
           parties_str (parties a) @ '']''"

section \<open>The sum\<close>

text \<open>
  \<open>sum_nada_array\<close> of \<open>arithmetic.py\<close>. The addition of two values is the
  operator of the external library; it is a parameter, and it may raise.
\<close>

fun sum_loop :: "(pyval \<Rightarrow> pyval \<Rightarrow> error + pyval) \<Rightarrow> pyval \<Rightarrow> pyval list \<Rightarrow> error + pyval" where
  "sum_loop addop output [] = Inr output"
| "sum_loop addop output (e # es) =
     (if type_of e \<notin> secret_int_types then Inl TypeError
      else case addop output e of
             Inl err \<Rightarrow> Inl err
           | Inr v \<Rightarrow> sum_loop addop v es)"

definition sum_nada_array :: "(pyval \<Rightarrow> pyval \<Rightarrow> error + pyval) \<Rightarrow> pyval list \<Rightarrow> error + pyval" where
  "sum_nada_array addop argument =
     (case first argument of
        Inl e \<Rightarrow> Inl e
      | Inr output \<Rightarrow> sum_loop addop output (drop 1 argument))"

section \<open>Arrays that client code can reach\<close>

text \<open>
  The parties that the elements of a sequence resolve to, and the arrays whose
  cached party set is exactly that for their own sequence.
\<close>

definition resolved :: "pyval list \<Rightarrow> string set" where
  "resolved xs = (\<Union>obj \<in> set xs. gather_parties_obj obj)"

definition consistent :: "NadaArray \<Rightarrow> bool" where
  "consistent a = (parties a = resolved (data a))"

text \<open>
  The arrays that client code can hold: those returned by the constructor and by
  concatenation, and the states an array is in after \<open>append\<close>, \<open>extend\<close> with a
  list, \<open>insert\<close>, indexed replacement or indexed deletion, whether the call
  returned or raised. A caller that catches the exception still holds the array,
  in the state the call left it in.
\<close>

fun state_after :: "outcome \<Rightarrow> NadaArray" where
  "state_after (Done a) = a"
| "state_after (Raised e a) = a"

inductive reachable :: "NadaArray \<Rightarrow> bool" where
  construct: "init args = Inr a \<Longrightarrow> reachable a"
| concat: "reachable a \<Longrightarrow> reachable b \<Longrightarrow> add a b = Inr c \<Longrightarrow> reachable c"
| append: "reachable a \<Longrightarrow> reachable (state_after (append_item a item))"
| extend: "reachable a \<Longrightarrow> reachable (state_after (extend_items a (Reiterable items)))"
| insert: "reachable a \<Longrightarrow> reachable (state_after (insert_item a index item))"
| setitem: "reachable a \<Longrightarrow> reachable (state_after (setitem a index item))"
| delitem: "reachable a \<Longrightarrow> reachable (state_after (delitem a index))"

section \<open>The summary format of the specification\<close>

text \<open>
  The summary as the specification words it, for comparison with \<open>str\<close>: the form
  \<open><len=N> <parties=[...]>\<close>, the party names sorted lexicographically and then
  each put in single quotes, separated by commas.
\<close>

definition spec_summary :: "nat \<Rightarrow> string set \<Rightarrow> string" where
  "spec_summary n ps =
     ''<len='' @ str_nat n @ ''> <parties=['' @ join '','' (map quote (sorted_list_of_set ps)) @ '']>''"

section \<open>Properties of provenance resolution\<close>

text \<open>The accumulated set only grows, by what the node contributes on its own.\<close>

lemma fold_traverse:
  "(\<forall>r \<in> set rs. \<forall>n acc. map_of attrs r = Some n \<longrightarrow> traverse n acc = acc \<union> traverse n {}) \<Longrightarrow>
   fold (\<lambda>attr acc. case map_of attrs attr of Some n \<Rightarrow> traverse n acc | None \<Rightarrow> acc) rs acc
     = acc \<union> (\<Union>r \<in> set rs. case map_of attrs r of Some n \<Rightarrow> traverse n {} | None \<Rightarrow> {})"
proof (induction rs arbitrary: acc)
  case Nil
  then show ?case by simp
next
  case (Cons r rs)
  let ?f = "\<lambda>attr acc. case map_of attrs attr of Some n \<Rightarrow> traverse n acc | None \<Rightarrow> acc"
  let ?g = "\<lambda>r. case map_of attrs r of Some n \<Rightarrow> traverse n {} | None \<Rightarrow> {}"
  have step: "?f r acc = acc \<union> ?g r"
  proof (cases "map_of attrs r")
    case None
    then show ?thesis by simp
  next
    case (Some n)
    have "traverse n acc = acc \<union> traverse n {}"
      using Cons.prems Some by (meson list.set_intros(1))
    then show ?thesis using Some by (simp only: option.case)
  qed
  have "fold ?f (r # rs) acc = fold ?f rs (?f r acc)"
    by simp
  also have "\<dots> = ?f r acc \<union> (\<Union>r \<in> set rs. ?g r)"
  proof -
    have "\<forall>r \<in> set rs. \<forall>n acc. map_of attrs r = Some n \<longrightarrow> traverse n acc = acc \<union> traverse n {}"
      using Cons.prems by (meson list.set_intros(2))
    then show ?thesis by (rule Cons.IH)
  qed
  also have "\<dots> = acc \<union> (\<Union>r \<in> set (r # rs). ?g r)"
    unfolding step by auto
  finally show ?case .
qed

lemma traverse_acc: "traverse n acc = acc \<union> traverse n {}"
proof (induction n acc rule: traverse.induct)
  case (1 p attrs acc)
  then show ?case by (cases p) auto
next
  case (2 attrs acc)
  then show ?case by simp
next
  case (3 attrs acc)
  let ?g = "\<lambda>r. case map_of attrs r of Some n \<Rightarrow> traverse n {} | None \<Rightarrow> {}"
  have h: "\<forall>r \<in> set link_attrs. \<forall>n acc. map_of attrs r = Some n \<longrightarrow> traverse n acc = acc \<union> traverse n {}"
    using 3 by blast
  have "traverse (Obj attrs) acc = acc \<union> (\<Union>r \<in> set link_attrs. ?g r)"
    using fold_traverse [OF h, of acc] by simp
  moreover have "traverse (Obj attrs) {} = (\<Union>r \<in> set link_attrs. ?g r)"
    using fold_traverse [OF h, of "{}"] by simp
  ultimately show ?case by (simp only:)
qed

lemma gather_parties_Obj:
  "gather_parties (Obj attrs) =
     (\<Union>r \<in> set link_attrs. case map_of attrs r of Some n \<Rightarrow> gather_parties n | None \<Rightarrow> {})"
proof -
  have h: "\<forall>r \<in> set link_attrs. \<forall>n acc. map_of attrs r = Some n \<longrightarrow> traverse n acc = acc \<union> traverse n {}"
    using traverse_acc by blast
  show ?thesis
    unfolding gather_parties_def using fold_traverse [OF h, of "{}"] by simp
qed

lemma gather_parties_Input: "gather_parties (Input p attrs) = (case p of Some q \<Rightarrow> {name q} | None \<Rightarrow> {})"
  by (simp add: gather_parties_def split: option.splits)

lemma gather_parties_Literal: "gather_parties (Literal attrs) = {}"
  by (simp add: gather_parties_def)

text \<open>
  C5. For the audited variant, resolution returns the names of the attached party
  list, with no traversal. For the plain variant it traverses the expression graph
  from the value itself: an \<open>Input\<close> contributes its party's name when it has a
  party and nothing otherwise, a \<open>Literal\<close> contributes nothing, and neither is
  descended into, whatever attributes it has; any other object contributes the
  union of what the objects under those of the six link attributes it has
  contribute, so that an object with none of them contributes nothing. Resolution
  is a total function into sets of names: no case of it raises.
\<close>

theorem gather_parties_spec:
  "gather_parties_obj (AuditSecretInteger ps) = name ` set ps \<and>
   gather_parties_obj (SecretInteger attrs) =
     (\<Union>r \<in> {''inner'', ''left'', ''right'', ''arg_0'', ''arg_1'', ''this''}.
        case map_of attrs r of Some n \<Rightarrow> gather_parties n | None \<Rightarrow> {}) \<and>
   gather_parties (Input (Some q) attrs) = {name q} \<and>
   gather_parties (Input None attrs) = {} \<and>
   gather_parties (Literal attrs) = {} \<and>
   gather_parties (Obj attrs) =
     (\<Union>r \<in> {''inner'', ''left'', ''right'', ''arg_0'', ''arg_1'', ''this''}.
        case map_of attrs r of Some n \<Rightarrow> gather_parties n | None \<Rightarrow> {}) \<and>
   ((\<forall>r \<in> {''inner'', ''left'', ''right'', ''arg_0'', ''arg_1'', ''this''}. map_of attrs r = None)
      \<longrightarrow> gather_parties (Obj attrs) = {} \<and> gather_parties_obj (SecretInteger attrs) = {})"
proof -
  have roles: "set link_attrs = {''inner'', ''left'', ''right'', ''arg_0'', ''arg_1'', ''this''}"
    by (simp add: link_attrs_def)
  have obj: "gather_parties (Obj attrs) =
     (\<Union>r \<in> {''inner'', ''left'', ''right'', ''arg_0'', ''arg_1'', ''this''}.
        case map_of attrs r of Some n \<Rightarrow> gather_parties n | None \<Rightarrow> {})"
    using gather_parties_Obj [of attrs] unfolding roles .
  have none: "(\<forall>r \<in> {''inner'', ''left'', ''right'', ''arg_0'', ''arg_1'', ''this''}. map_of attrs r = None)
      \<longrightarrow> gather_parties (Obj attrs) = {}"
    unfolding obj by simp
  show ?thesis
    using obj none by (simp add: gather_parties_Input gather_parties_Literal)
qed

text \<open>
  The theorem at a sum of two inputs of parties \<open>A\<close> and \<open>B\<close> whose \<open>Literal\<close> operand
  carries an attribute that is not followed, and at an object with no link attribute.
\<close>

theorem gather_parties_spec_witness:
  "gather_parties_obj
     (SecretInteger
        [(''inner'',
          Obj [(''left'', Input (Some (Party ''A'')) []),
               (''right'', Obj [(''arg_0'', Input (Some (Party ''B'')) []),
                                (''arg_1'', Literal [(''inner'', Input (Some (Party ''C'')) [])]),
                                (''other'', Input (Some (Party ''D'')) [])])])])
     = {''A'', ''B''} \<and>
   list_all (\<lambda>r. map_of [(''value'', Input (Some (Party ''A'')) [])] r = None) link_attrs \<and>
   gather_parties (Obj [(''value'', Input (Some (Party ''A'')) [])]) = {}"
proof -
  have none: "\<forall>r \<in> {''inner'', ''left'', ''right'', ''arg_0'', ''arg_1'', ''this''}.
      map_of [(''value'', Input (Some (Party ''A'')) [])] r = None"
    by simp
  have leaf: "gather_parties (Obj [(''value'', Input (Some (Party ''A'')) [])]) = {}"
    using gather_parties_spec [of _ "[(''value'', Input (Some (Party ''A'')) [])]"] none by blast
  have "gather_parties_obj
     (SecretInteger
        [(''inner'',
          Obj [(''left'', Input (Some (Party ''A'')) []),
               (''right'', Obj [(''arg_0'', Input (Some (Party ''B'')) []),
                                (''arg_1'', Literal [(''inner'', Input (Some (Party ''C'')) [])]),
                                (''other'', Input (Some (Party ''D'')) [])])])])
     = {''A'', ''B''}"
    by (simp add: gather_parties_def link_attrs_def insert_commute)
  moreover have "list_all (\<lambda>r. map_of [(''value'', Input (Some (Party ''A'')) [])] r = None) link_attrs"
    by (simp add: link_attrs_def)
  ultimately show ?thesis using leaf by blast
qed

section \<open>Properties of the array operations\<close>

lemma resolved_append [simp]: "resolved (xs @ ys) = resolved xs \<union> resolved ys"
  by (auto simp: resolved_def)

lemma resolved_Cons [simp]: "resolved (x # xs) = gather_parties_obj x \<union> resolved xs"
  by (auto simp: resolved_def)

lemma resolved_Nil [simp]: "resolved [] = {}"
  by (simp add: resolved_def)

lemma append_item_consistent:
  "consistent a \<Longrightarrow> append_item a item = Done a' \<Longrightarrow> consistent a'"
  by (auto simp: append_item_def consistent_def add_parties_def split: sum.splits)

lemma init_loop_consistent:
  "consistent a \<Longrightarrow> init_loop a items = Inr a' \<Longrightarrow> consistent a'"
proof (induction items arbitrary: a)
  case Nil
  then show ?case by simp
next
  case (Cons item items)
  then show ?case
    by (cases "append_item a item") (auto dest: append_item_consistent)
qed

lemma init_consistent: "init args = Inr a \<Longrightarrow> consistent a"
proof -
  assume h: "init args = Inr a"
  have "consistent \<lparr>data = [], parties = {}\<rparr>"
    by (simp add: consistent_def)
  with h show ?thesis
    by (auto simp: init_def split: sum.splits dest: init_loop_consistent)
qed

lemma extend_loop_Done:
  "extend_loop a items = Done a' \<Longrightarrow> a' = a\<lparr>parties := parties a \<union> resolved items\<rparr>"
proof (induction items arbitrary: a)
  case Nil
  then show ?case by simp
next
  case (Cons item items)
  show ?case
  proof (cases "check_type item")
    case (Inl e)
    with Cons.prems show ?thesis by simp
  next
    case (Inr u)
    with Cons.prems have "extend_loop (add_parties a item) items = Done a'"
      by simp
    from Cons.IH [OF this] show ?thesis
      by (simp add: add_parties_def Un_assoc)
  qed
qed

lemma extend_items_consistent:
  "consistent a \<Longrightarrow> extend_items a (Reiterable items) = Done a' \<Longrightarrow> consistent a'"
  by (auto simp: extend_items_def consistent_def split: outcome.splits dest!: extend_loop_Done)

lemma list_insert_resolved:
  "list_insert xs i x = Inr ys \<Longrightarrow> resolved ys = resolved xs \<union> gather_parties_obj x"
proof -
  assume h: "list_insert xs i x = Inr ys"
  have "resolved (take k xs @ x # drop k xs) = resolved xs \<union> gather_parties_obj x" for k
  proof -
    have "resolved (take k xs @ drop k xs) = resolved xs" by simp
    then have "resolved (take k xs) \<union> resolved (drop k xs) = resolved xs"
      by (simp only: resolved_append)
    then show ?thesis by auto
  qed
  with h show ?thesis
    by (auto simp: list_insert_def Let_def split: if_splits)
qed

lemma insert_item_consistent:
  "consistent a \<Longrightarrow> insert_item a i item = Done a' \<Longrightarrow> consistent a'"
  by (auto simp: insert_item_def consistent_def add_parties_def split: sum.splits
           dest!: list_insert_resolved)

lemma setitem_consistent: "setitem a i item = Done a' \<Longrightarrow> consistent a'"
  by (auto simp: setitem_def consistent_def update_parties_def resolved_def split: sum.splits)

lemma delitem_consistent: "delitem a i = Done a' \<Longrightarrow> consistent a'"
  by (auto simp: delitem_def consistent_def update_parties_def resolved_def split: sum.splits)

text \<open>When one of these four raises, it has not touched the array.\<close>

lemma append_item_Raised: "append_item a item = Raised e a' \<Longrightarrow> a' = a"
  by (auto simp: append_item_def split: sum.splits)

lemma insert_item_Raised: "insert_item a i item = Raised e a' \<Longrightarrow> a' = a"
  by (auto simp: insert_item_def split: sum.splits)

lemma setitem_Raised: "setitem a i item = Raised e a' \<Longrightarrow> a' = a"
  by (auto simp: setitem_def split: sum.splits)

lemma delitem_Raised: "delitem a i = Raised e a' \<Longrightarrow> a' = a"
  by (auto simp: delitem_def split: sum.splits)

text \<open>
  An indexed deletion that returns has removed the element at the index, counted
  from the end when negative, and has recomputed the party set from what remains.
\<close>

lemma delitem_Done:
  "delitem a i = Done a' \<Longrightarrow>
   \<exists>k. list_index (length (data a)) i = Inr k \<and> k < length (data a) \<and>
       int k = (if i < 0 then i + int (length (data a)) else i) \<and>
       data a' = take k (data a) @ drop (Suc k) (data a) \<and>
       parties a' = resolved (take k (data a) @ drop (Suc k) (data a))"
  by (auto simp: delitem_def list_index_def Let_def update_parties_def resolved_def
      split: sum.splits if_splits)

text \<open>
  C1. The empty array is what the constructor returns. \<open>extend\<close> with the list
  \<open>[v, 7]\<close>, \<open>v\<close> an audited value of party \<open>A\<close>, raises \<open>TypeError\<close> and leaves the
  sequence empty and the party set \<open>{A}\<close>. An \<open>append\<close> of an audited value of party
  \<open>B\<close> then returns, and in the array it leaves, an array reached through the
  public operations, the cached party set is \<open>{A, B}\<close> while the only element
  resolves to \<open>{B}\<close>: the set is not the union of the resolved parties of the
  current elements. Calls that return keep the two equal (the lemmas on
  \<open>consistent\<close> above); the calls of \<open>append\<close>, \<open>insert\<close>, replacement and deletion
  that raise change nothing; the \<open>extend\<close> that raises is what breaks it.
\<close>

theorem provenance_inconsistent_after_failed_extend:
  "init [] = Inr \<lparr>data = [], parties = {}\<rparr> \<and>
   extend_items \<lparr>data = [], parties = {}\<rparr>
       (Reiterable [AuditSecretInteger [Party ''A''], PyInt 7])
     = Raised TypeError \<lparr>data = [], parties = {''A''}\<rparr> \<and>
   append_item \<lparr>data = [], parties = {''A''}\<rparr> (AuditSecretInteger [Party ''B''])
     = Done \<lparr>data = [AuditSecretInteger [Party ''B'']], parties = {''A'', ''B''}\<rparr> \<and>
   reachable \<lparr>data = [AuditSecretInteger [Party ''B'']], parties = {''A'', ''B''}\<rparr> \<and>
   (\<Union>obj \<in> set (data \<lparr>data = [AuditSecretInteger [Party ''B'']], parties = {''A'', ''B''}\<rparr>).
      gather_parties_obj obj) = {''B''} \<and>
   get_parties \<lparr>data = [AuditSecretInteger [Party ''B'']], parties = {''A'', ''B''}\<rparr>
     \<noteq> (\<Union>obj \<in> set (data \<lparr>data = [AuditSecretInteger [Party ''B'']], parties = {''A'', ''B''}\<rparr>).
          gather_parties_obj obj)"
proof -
  let ?a0 = "\<lparr>data = [], parties = {}\<rparr>"
  let ?a1 = "\<lparr>data = [], parties = {''A''}\<rparr>"
  let ?a2 = "\<lparr>data = [AuditSecretInteger [Party ''B'']], parties = {''A'', ''B''}\<rparr>"
  have i: "init [] = Inr ?a0"
    by (simp add: init_def unpack_args_def)
  have e: "extend_items ?a0 (Reiterable [AuditSecretInteger [Party ''A''], PyInt 7])
             = Raised TypeError ?a1"
    by (simp add: extend_items_def check_type_def secret_int_types_def add_parties_def)
  have p: "append_item ?a1 (AuditSecretInteger [Party ''B'']) = Done ?a2"
    by (simp add: append_item_def check_type_def secret_int_types_def add_parties_def
        insert_commute)
  have r0: "reachable ?a0"
    using i by (rule reachable.construct)
  have "reachable (state_after (extend_items ?a0 (Reiterable [AuditSecretInteger [Party ''A''], PyInt 7])))"
    using r0 by (rule reachable.extend)
  then have r1: "reachable ?a1"
    by (simp only: e state_after.simps)
  have "reachable (state_after (append_item ?a1 (AuditSecretInteger [Party ''B''])))"
    using r1 by (rule reachable.append)
  then have r2: "reachable ?a2"
    by (simp only: p state_after.simps)
  have u: "(\<Union>obj \<in> set (data ?a2). gather_parties_obj obj) = {''B''}"
    by simp
  have n: "get_parties ?a2 \<noteq> (\<Union>obj \<in> set (data ?a2). gather_parties_obj obj)"
    unfolding u by (simp add: get_parties_def)
  show ?thesis
    using i e p r2 u n by blast
qed

text \<open>
  C2. An item whose type is not one of the two accepted types makes \<open>append\<close>
  raise \<open>TypeError\<close> and leaves the array, sequence and party set, as it was. An
  accepted item is placed at the end, the length grows by exactly one, and the
  party set becomes the old set united with the item's resolved parties.
\<close>

theorem append_item_spec:
  "(type_of item \<notin> secret_int_types \<longrightarrow> append_item a item = Raised TypeError a) \<and>
   (type_of item \<in> secret_int_types \<longrightarrow>
      (\<exists>a'. append_item a item = Done a' \<and> len a' = len a + 1 \<and>
            data a' = data a @ [item] \<and>
            get_parties a' = get_parties a \<union> gather_parties_obj item))"
  by (simp add: append_item_def check_type_def add_parties_def len_def get_parties_def)

theorem append_item_spec_witness:
  "append_item \<lparr>data = [], parties = {}\<rparr> (PyInt 3) = Raised TypeError \<lparr>data = [], parties = {}\<rparr> \<and>
   (\<exists>a'. append_item \<lparr>data = [], parties = {}\<rparr> (AuditSecretInteger [Party ''A'']) = Done a' \<and>
         len a' = 1 \<and> data a' = [AuditSecretInteger [Party ''A'']] \<and> get_parties a' = {''A''})"
  using append_item_spec [of "PyInt 3" "\<lparr>data = [], parties = {}\<rparr>"]
        append_item_spec [of "AuditSecretInteger [Party ''A'']" "\<lparr>data = [], parties = {}\<rparr>"]
  by (simp add: secret_int_types_def len_def get_parties_def)

subsection \<open>\<open>extend\<close>\<close>

lemma extend_loop_accepted:
  "\<forall>x \<in> set items. type_of x \<in> secret_int_types \<Longrightarrow>
   extend_loop a items = Done (a\<lparr>parties := parties a \<union> resolved items\<rparr>)"
proof (induction items arbitrary: a)
  case Nil
  then show ?case by simp
next
  case (Cons item items)
  have "extend_loop (add_parties a item) items
          = Done ((add_parties a item)\<lparr>parties := parties (add_parties a item) \<union> resolved items\<rparr>)"
    using Cons.prems by (intro Cons.IH) simp
  then show ?case using Cons.prems
    by (simp add: check_type_def add_parties_def Un_assoc)
qed

lemma extend_loop_rejected:
  "\<forall>x \<in> set pre. type_of x \<in> secret_int_types \<Longrightarrow> type_of bad \<notin> secret_int_types \<Longrightarrow>
   extend_loop a (pre @ bad # post) = Raised TypeError (a\<lparr>parties := parties a \<union> resolved pre\<rparr>)"
proof (induction pre arbitrary: a)
  case Nil
  then show ?case by (simp add: check_type_def)
next
  case (Cons item pre)
  have "extend_loop (add_parties a item) (pre @ bad # post)
          = Raised TypeError ((add_parties a item)\<lparr>parties := parties (add_parties a item) \<union> resolved pre\<rparr>)"
    using Cons.prems by (intro Cons.IH) simp_all
  then show ?case using Cons.prems
    by (simp add: check_type_def add_parties_def Un_assoc)
qed

lemma extend_items_list:
  assumes "\<forall>x \<in> set items. type_of x \<in> secret_int_types"
  shows "extend_items a (Reiterable items)
           = Done \<lparr>data = data a @ items, parties = parties a \<union> resolved items\<rparr>"
  using extend_loop_accepted [OF assms, of a]
  by (simp add: extend_items_def)

lemma extend_items_rejected:
  assumes "\<forall>x \<in> set pre. type_of x \<in> secret_int_types" and "type_of bad \<notin> secret_int_types"
  shows "extend_items a (Reiterable (pre @ bad # post))
           = Raised TypeError (a\<lparr>parties := parties a \<union> resolved pre\<rparr>)"
  using extend_loop_rejected [OF assms, of a post]
  by (simp add: extend_items_def)

text \<open>
  C3. The batch \<open>[v, 7]\<close>, with \<open>v\<close> an audited value of party \<open>A\<close>, fails the type
  check at its second element. \<open>extend\<close> raises \<open>TypeError\<close> and the sequence is as
  before, but the party set has already taken up \<open>A\<close>: the parties of the items in
  front of the failing one are added during the validation pass
  (\<open>extend_items_rejected\<close> gives the state for any batch).
\<close>

theorem extend_items_failure_state:
  "extend_items \<lparr>data = [], parties = {}\<rparr> (Reiterable [AuditSecretInteger [Party ''A''], PyInt 7])
     = Raised TypeError \<lparr>data = [], parties = {''A''}\<rparr>"
  by (simp add: extend_items_def check_type_def secret_int_types_def add_parties_def)

text \<open>
  C9. When \<open>extend\<close> is given a generator of accepted values, the validation pass
  uses the generator up: the call returns, the sequence and its length are
  unchanged, and the party set has gained the resolved parties of every generated
  value.
\<close>

theorem extend_items_generator:
  assumes "\<forall>x \<in> set items. type_of x \<in> secret_int_types"
  shows "iterate (OneShot items) = (items, OneShot []) \<and>
         (\<exists>a'. extend_items a (OneShot items) = Done a' \<and> data a' = data a \<and> len a' = len a \<and>
               get_parties a' = get_parties a \<union> (\<Union>x \<in> set items. gather_parties_obj x))"
  using extend_loop_accepted [OF assms, of a]
  by (simp add: extend_items_def len_def get_parties_def resolved_def)

theorem extend_items_generator_witness:
  "type_of (AuditSecretInteger [Party ''A'']) \<in> secret_int_types \<and>
   type_of (AuditSecretInteger [Party ''B'']) \<in> secret_int_types \<and>
   extend_items \<lparr>data = [], parties = {}\<rparr>
     (OneShot [AuditSecretInteger [Party ''A''], AuditSecretInteger [Party ''B'']])
     = Done \<lparr>data = [], parties = {''A'', ''B''}\<rparr>"
proof -
  have h: "\<forall>x \<in> set [AuditSecretInteger [Party ''A''], AuditSecretInteger [Party ''B'']].
      type_of x \<in> secret_int_types"
    by (simp add: secret_int_types_def)
  obtain a' where "extend_items \<lparr>data = [], parties = {}\<rparr>
     (OneShot [AuditSecretInteger [Party ''A''], AuditSecretInteger [Party ''B'']]) = Done a'"
    and "data a' = []" and "get_parties a' = {''A'', ''B''}"
    using extend_items_generator [OF h, of "\<lparr>data = [], parties = {}\<rparr>"]
    by (auto simp: get_parties_def)
  then show ?thesis using h
    by (cases a') (simp add: get_parties_def)
qed

subsection \<open>\<open>insert\<close>\<close>

text \<open>
  C6, as stated, fails: on the empty array the indices \<open>5\<close> and \<open>-3\<close> are outside
  \<open>0..0\<close>, and \<open>insert\<close> returns with the item inserted.
\<close>

theorem insert_item_no_index_error:
  "\<not> (0 \<le> (5::int) \<and> 5 \<le> int (len \<lparr>data = [], parties = {}\<rparr>)) \<and>
   insert_item \<lparr>data = [], parties = {}\<rparr> 5 (AuditSecretInteger [Party ''A''])
     = Done \<lparr>data = [AuditSecretInteger [Party ''A'']], parties = {''A''}\<rparr> \<and>
   insert_item \<lparr>data = [], parties = {}\<rparr> (-3) (AuditSecretInteger [Party ''A''])
     = Done \<lparr>data = [AuditSecretInteger [Party ''A'']], parties = {''A''}\<rparr>"
  by (simp add: insert_item_def check_type_def secret_int_types_def list_insert_def
      fits_ssize_t_def add_parties_def len_def)

text \<open>
  C6, amended. \<open>insert\<close> never raises \<open>IndexError\<close>. An item that is not accepted
  raises \<open>TypeError\<close> and leaves the array as it was. An accepted item, with an index
  that fits the machine's index type, is inserted at position \<open>k\<close>, the elements
  from \<open>k\<close> on shifted by one: \<open>k\<close> is the index itself when it lies in \<open>0..n\<close>, \<open>n\<close>
  when the index is larger, and \<open>max 0 (n + index)\<close> when it is negative. The length
  grows by one and the party set is united with the item's resolved parties.
\<close>

theorem insert_item_spec:
  "(\<forall>a''. insert_item a index item \<noteq> Raised IndexError a'') \<and>
   (type_of item \<notin> secret_int_types \<longrightarrow> insert_item a index item = Raised TypeError a) \<and>
   (type_of item \<in> secret_int_types \<and> fits_ssize_t index \<longrightarrow>
      (\<exists>a' k. insert_item a index item = Done a' \<and>
         k = (if index < 0 then nat (max 0 (int (len a) + index)) else min (nat index) (len a)) \<and>
         (0 \<le> index \<and> index \<le> int (len a) \<longrightarrow> int k = index) \<and>
         data a' = take k (data a) @ item # drop k (data a) \<and>
         len a' = len a + 1 \<and>
         get_parties a' = get_parties a \<union> gather_parties_obj item))"
proof -
  have no_index: "insert_item a index item \<noteq> Raised IndexError a''" for a''
    by (simp add: insert_item_def check_type_def list_insert_def Let_def split: if_splits)
  have rejected: "type_of item \<notin> secret_int_types \<longrightarrow> insert_item a index item = Raised TypeError a"
    by (simp add: insert_item_def check_type_def)
  have accepted: "\<exists>a' k. insert_item a index item = Done a' \<and>
         k = (if index < 0 then nat (max 0 (int (len a) + index)) else min (nat index) (len a)) \<and>
         (0 \<le> index \<and> index \<le> int (len a) \<longrightarrow> int k = index) \<and>
         data a' = take k (data a) @ item # drop k (data a) \<and>
         len a' = len a + 1 \<and>
         get_parties a' = get_parties a \<union> gather_parties_obj item"
    if ok: "type_of item \<in> secret_int_types" and fits: "fits_ssize_t index"
  proof -
    let ?n = "int (length (data a))"
    let ?j = "if index < 0 then (if index + ?n < 0 then 0 else index + ?n)
              else (if index > ?n then ?n else index)"
    let ?k = "if index < 0 then nat (max 0 (int (len a) + index)) else min (nat index) (len a)"
    have k: "nat ?j = ?k"
      by (auto simp: len_def)
    have ins: "list_insert (data a) index item = Inr (take (nat ?j) (data a) @ item # drop (nat ?j) (data a))"
      using fits by (simp add: list_insert_def Let_def)
    have "insert_item a index item
            = Done (add_parties (a\<lparr>data := take ?k (data a) @ item # drop ?k (data a)\<rparr>) item)"
      using ok ins unfolding k by (simp add: insert_item_def check_type_def)
    moreover have "?k \<le> length (data a)"
      by (auto simp: len_def)
    moreover have "0 \<le> index \<and> index \<le> int (len a) \<longrightarrow> int ?k = index"
      by (auto simp: len_def)
    ultimately show ?thesis
      by (simp add: add_parties_def len_def get_parties_def)
  qed
  show ?thesis
    using no_index rejected accepted by blast
qed

theorem insert_item_spec_witness:
  "type_of (AuditSecretInteger [Party ''B'']) \<in> secret_int_types \<and> fits_ssize_t 1 \<and>
   insert_item \<lparr>data = [AuditSecretInteger [Party ''A''], AuditSecretInteger [Party ''C'']],
                parties = {''A'', ''C''}\<rparr> 1 (AuditSecretInteger [Party ''B''])
     = Done \<lparr>data = [AuditSecretInteger [Party ''A''], AuditSecretInteger [Party ''B''],
                      AuditSecretInteger [Party ''C'']],
             parties = {''A'', ''B'', ''C''}\<rparr> \<and>
   insert_item \<lparr>data = [], parties = {}\<rparr> 0 PyNone = Raised TypeError \<lparr>data = [], parties = {}\<rparr>"
proof -
  let ?a = "\<lparr>data = [AuditSecretInteger [Party ''A''], AuditSecretInteger [Party ''C'']],
                parties = {''A'', ''C''}\<rparr>"
  have t: "type_of (AuditSecretInteger [Party ''B'']) \<in> secret_int_types"
    by (simp add: secret_int_types_def)
  have f: "fits_ssize_t 1"
    by (simp add: fits_ssize_t_def)
  have n: "type_of PyNone \<notin> secret_int_types"
    by (simp add: secret_int_types_def)
  obtain a' where "insert_item ?a 1 (AuditSecretInteger [Party ''B'']) = Done a'"
    and "data a' = [AuditSecretInteger [Party ''A''], AuditSecretInteger [Party ''B''],
                      AuditSecretInteger [Party ''C'']]"
    and "get_parties a' = {''A'', ''B'', ''C''}"
    using insert_item_spec [of ?a 1 "AuditSecretInteger [Party ''B'']"] t f
    by (auto simp: len_def get_parties_def)
  moreover have "insert_item \<lparr>data = [], parties = {}\<rparr> 0 PyNone = Raised TypeError \<lparr>data = [], parties = {}\<rparr>"
    using insert_item_spec [of "\<lparr>data = [], parties = {}\<rparr>" 0 PyNone] n by blast
  ultimately show ?thesis using t f
    by (cases a') (simp add: get_parties_def)
qed

subsection \<open>Construction and concatenation\<close>

lemma init_loop_accepted:
  "\<forall>x \<in> set items. type_of x \<in> secret_int_types \<Longrightarrow>
   init_loop a items = Inr \<lparr>data = data a @ items, parties = parties a \<union> resolved items\<rparr>"
proof (induction items arbitrary: a)
  case Nil
  then show ?case by simp
next
  case (Cons item items)
  let ?a1 = "add_parties (a\<lparr>data := data a @ [item]\<rparr>) item"
  have step: "append_item a item = Done ?a1"
    using Cons.prems by (simp add: append_item_def check_type_def)
  have "init_loop ?a1 items = Inr \<lparr>data = data ?a1 @ items, parties = parties ?a1 \<union> resolved items\<rparr>"
    using Cons.prems by (intro Cons.IH) simp
  then show ?case using step
    by (simp add: add_parties_def Un_assoc)
qed

lemma unpack_args_list:
  "type_of x \<noteq> GeneratorT \<Longrightarrow> unpack_args [PyList (x # xs)] = Inr (x # xs)"
  by (cases x) (simp_all add: unpack_args_def first_def)

text \<open>Concatenation of two well-formed arrays that are not both empty.\<close>

lemma add_nonempty:
  assumes "\<forall>x \<in> set (data a). type_of x \<in> secret_int_types"
    and "\<forall>x \<in> set (data b). type_of x \<in> secret_int_types"
    and "consistent a" and "consistent b"
    and "data a @ data b \<noteq> []"
  shows "add a b = Inr \<lparr>data = data a @ data b, parties = parties a \<union> parties b\<rparr>"
proof -
  obtain x xs where xs: "data a @ data b = x # xs"
    using assms(5) by (cases "data a @ data b") auto
  have all: "\<forall>y \<in> set (x # xs). type_of y \<in> secret_int_types"
    using assms(1,2) xs by (metis UnE set_append)
  then have "type_of x \<noteq> GeneratorT"
    by (auto simp: secret_int_types_def)
  then have "unpack_args [PyList (x # xs)] = Inr (x # xs)"
    by (rule unpack_args_list)
  then have "add a b = init_loop \<lparr>data = [], parties = {}\<rparr> (x # xs)"
    by (simp add: add_def init_def xs)
  also have "\<dots> = Inr \<lparr>data = x # xs, parties = resolved (x # xs)\<rparr>"
    using init_loop_accepted [OF all, of "\<lparr>data = [], parties = {}\<rparr>"] by simp
  also have "resolved (x # xs) = parties a \<union> parties b"
    using assms(3,4) xs by (metis consistent_def resolved_append)
  finally show ?thesis by (simp add: xs)
qed

text \<open>
  C7. The empty array is what the constructor without arguments returns. For two
  empty arrays the concatenation hands the empty list to the constructor, whose
  second test reads \<open>args[0]\<close> of that list: the call raises \<open>IndexError\<close> and no
  array of length \<open>0\<close> is produced. For operands that are not both empty the
  concatenation is as claimed (\<open>add_nonempty\<close>).
\<close>

theorem add_empty_arrays:
  "init [] = Inr \<lparr>data = [], parties = {}\<rparr> \<and>
   add \<lparr>data = [], parties = {}\<rparr> \<lparr>data = [], parties = {}\<rparr> = Inl IndexError"
  by (simp add: add_def init_def unpack_args_def first_def)

text \<open>
  C10. A single constructor argument that is neither a list nor a generator is not
  unpacked: it is the one candidate element, so the result is the one-element array
  when it is an accepted value and \<open>TypeError\<close> otherwise; a tuple, whatever it
  holds, is rejected. A generator of accepted values and a non-empty list of
  accepted values are unpacked into their items.
\<close>

theorem init_single_argument:
  "(type_of arg \<noteq> ListT \<and> type_of arg \<noteq> GeneratorT \<longrightarrow>
      init [arg] = (if type_of arg \<in> secret_int_types
                    then Inr \<lparr>data = [arg], parties = gather_parties_obj arg\<rparr>
                    else Inl TypeError)) \<and>
   init [PyTuple xs] = Inl TypeError \<and>
   ((\<forall>x \<in> set items. type_of x \<in> secret_int_types) \<longrightarrow>
      init [PyGenerator items]
        = Inr \<lparr>data = items, parties = (\<Union>x \<in> set items. gather_parties_obj x)\<rparr>) \<and>
   ((\<forall>x \<in> set items. type_of x \<in> secret_int_types) \<and> items \<noteq> [] \<longrightarrow>
      init [PyList items]
        = Inr \<lparr>data = items, parties = (\<Union>x \<in> set items. gather_parties_obj x)\<rparr>)"
proof -
  have tuple: "init [PyTuple xs] = Inl TypeError"
    by (simp add: init_def unpack_args_def first_def append_item_def check_type_def
        secret_int_types_def)
  have single: "init [arg] = (if type_of arg \<in> secret_int_types
                   then Inr \<lparr>data = [arg], parties = gather_parties_obj arg\<rparr>
                   else Inl TypeError)"
    if "type_of arg \<noteq> ListT" and "type_of arg \<noteq> GeneratorT"
  proof -
    have "unpack_args [arg] = Inr [arg]"
      using that by (cases arg) (simp_all add: unpack_args_def first_def)
    then show ?thesis
      by (simp add: init_def append_item_def check_type_def add_parties_def)
  qed
  have gen: "init [PyGenerator items]
        = Inr \<lparr>data = items, parties = (\<Union>x \<in> set items. gather_parties_obj x)\<rparr>"
    if ok: "\<forall>x \<in> set items. type_of x \<in> secret_int_types"
  proof -
    have "unpack_args [PyGenerator items] = Inr items"
      by (simp add: unpack_args_def first_def)
    then show ?thesis
      using init_loop_accepted [OF ok, of "\<lparr>data = [], parties = {}\<rparr>"]
      by (simp add: init_def resolved_def)
  qed
  have lst: "init [PyList items]
        = Inr \<lparr>data = items, parties = (\<Union>x \<in> set items. gather_parties_obj x)\<rparr>"
    if ok: "\<forall>x \<in> set items. type_of x \<in> secret_int_types" and ne: "items \<noteq> []"
  proof -
    obtain x xs where items: "items = x # xs"
      using ne by (cases items) auto
    have "type_of x \<noteq> GeneratorT"
      using ok items by (auto simp: secret_int_types_def)
    then have "unpack_args [PyList items] = Inr items"
      unfolding items by (rule unpack_args_list)
    then show ?thesis
      using init_loop_accepted [OF ok, of "\<lparr>data = [], parties = {}\<rparr>"]
      by (simp add: init_def resolved_def)
  qed
  show ?thesis
    using tuple single gen lst by blast
qed

theorem init_single_argument_witness:
  "type_of (PyTuple [AuditSecretInteger [Party ''A''], AuditSecretInteger [Party ''B'']]) \<noteq> ListT \<and>
   type_of (PyTuple [AuditSecretInteger [Party ''A''], AuditSecretInteger [Party ''B'']]) \<noteq> GeneratorT \<and>
   init [PyTuple [AuditSecretInteger [Party ''A''], AuditSecretInteger [Party ''B'']]] = Inl TypeError \<and>
   init [AuditSecretInteger [Party ''A'']]
     = Inr \<lparr>data = [AuditSecretInteger [Party ''A'']], parties = {''A''}\<rparr> \<and>
   type_of (AuditSecretInteger [Party ''A'']) \<in> secret_int_types \<and>
   type_of (AuditSecretInteger [Party ''B'']) \<in> secret_int_types \<and>
   init [PyList [AuditSecretInteger [Party ''A''], AuditSecretInteger [Party ''B'']]]
     = Inr \<lparr>data = [AuditSecretInteger [Party ''A''], AuditSecretInteger [Party ''B'']],
            parties = {''A'', ''B''}\<rparr> \<and>
   init [PyGenerator [AuditSecretInteger [Party ''A''], AuditSecretInteger [Party ''B'']]]
     = Inr \<lparr>data = [AuditSecretInteger [Party ''A''], AuditSecretInteger [Party ''B'']],
            parties = {''A'', ''B''}\<rparr>"
proof -
  let ?items = "[AuditSecretInteger [Party ''A''], AuditSecretInteger [Party ''B'']]"
  have ok: "\<forall>x \<in> set ?items. type_of x \<in> secret_int_types"
    by (simp add: secret_int_types_def)
  have "init [PyTuple ?items] = Inl TypeError"
    using init_single_argument [of "PyTuple ?items"] by (simp add: secret_int_types_def)
  moreover have "init [AuditSecretInteger [Party ''A'']]
     = Inr \<lparr>data = [AuditSecretInteger [Party ''A'']], parties = {''A''}\<rparr>"
    using init_single_argument [of "AuditSecretInteger [Party ''A'']"]
    by (simp add: secret_int_types_def)
  moreover have "init [PyList ?items] = Inr \<lparr>data = ?items, parties = {''A'', ''B''}\<rparr>"
    using init_single_argument [of _ _ ?items] ok by (simp add: insert_commute)
  moreover have "init [PyGenerator ?items] = Inr \<lparr>data = ?items, parties = {''A'', ''B''}\<rparr>"
    using init_single_argument [of _ _ ?items] ok by (simp add: insert_commute)
  ultimately show ?thesis using ok by simp
qed

section \<open>Properties of the sum\<close>

lemma sum_loop_total:
  "\<forall>e \<in> set es. type_of e \<in> secret_int_types \<Longrightarrow>
   sum_loop (\<lambda>a b. Inr (f a b)) x es = Inr (foldl f x es)"
  by (induction es arbitrary: x) simp_all

lemma sum_loop_rejected:
  "\<forall>e \<in> set pre. type_of e \<in> secret_int_types \<Longrightarrow> type_of bad \<notin> secret_int_types \<Longrightarrow>
   sum_loop (\<lambda>a b. Inr (f a b)) x (pre @ bad # post) = Inl TypeError"
  by (induction pre arbitrary: x) simp_all

text \<open>
  C4. On the empty sequence the sum raises \<open>IndexError\<close>. When the elements from
  index 1 on are of an accepted type, the sum is the left-to-right fold of the
  addition from the first element, so that three elements give \<open>(s1 + s2) + s3\<close>;
  the first element is taken as it is, whatever its type. The first element from
  index 1 on that is not of an accepted type makes the sum raise \<open>TypeError\<close>. The
  addition \<open>f\<close> is any operator that returns.
\<close>

theorem sum_nada_array_spec:
  "sum_nada_array addop [] = Inl IndexError \<and>
   ((\<forall>e \<in> set rest. type_of e \<in> secret_int_types) \<longrightarrow>
      sum_nada_array (\<lambda>a b. Inr (f a b)) (x # rest) = Inr (foldl f x rest)) \<and>
   ((\<forall>e \<in> set pre. type_of e \<in> secret_int_types) \<and> type_of bad \<notin> secret_int_types \<longrightarrow>
      sum_nada_array (\<lambda>a b. Inr (f a b)) (x # pre @ bad # post) = Inl TypeError) \<and>
   (type_of s2 \<in> secret_int_types \<and> type_of s3 \<in> secret_int_types \<longrightarrow>
      sum_nada_array (\<lambda>a b. Inr (f a b)) [s1, s2, s3] = Inr (f (f s1 s2) s3))"
  by (simp add: sum_nada_array_def first_def sum_loop_total sum_loop_rejected)

theorem sum_nada_array_spec_witness:
  "type_of (AuditSecretInteger [Party ''B'']) \<in> secret_int_types \<and>
   type_of (SecretInteger []) \<in> secret_int_types \<and>
   sum_nada_array (\<lambda>a b. Inr (PyTuple [a, b]))
      [PyInt 1, AuditSecretInteger [Party ''B''], SecretInteger []]
     = Inr (PyTuple [PyTuple [PyInt 1, AuditSecretInteger [Party ''B'']], SecretInteger []]) \<and>
   type_of (PyInt 2) \<notin> secret_int_types \<and>
   sum_nada_array (\<lambda>a b. Inr (PyTuple [a, b]))
      [AuditSecretInteger [Party ''A''], AuditSecretInteger [Party ''B''], PyInt 2, SecretInteger []]
     = Inl TypeError"
proof -
  have ok: "\<forall>e \<in> set [AuditSecretInteger [Party ''B''], SecretInteger []]. type_of e \<in> secret_int_types"
    by (simp add: secret_int_types_def)
  have ok1: "\<forall>e \<in> set [AuditSecretInteger [Party ''B'']]. type_of e \<in> secret_int_types"
    by (simp add: secret_int_types_def)
  have bad: "type_of (PyInt 2) \<notin> secret_int_types"
    by (simp add: secret_int_types_def)
  have "sum_nada_array (\<lambda>a b. Inr (PyTuple [a, b]))
      [PyInt 1, AuditSecretInteger [Party ''B''], SecretInteger []]
     = Inr (PyTuple [PyTuple [PyInt 1, AuditSecretInteger [Party ''B'']], SecretInteger []])"
    using sum_nada_array_spec [of _ "[AuditSecretInteger [Party ''B''], SecretInteger []]"
        "\<lambda>a b. PyTuple [a, b]" "PyInt 1"] ok
    by simp
  moreover have "sum_nada_array (\<lambda>a b. Inr (PyTuple [a, b]))
      [AuditSecretInteger [Party ''A''], AuditSecretInteger [Party ''B''], PyInt 2, SecretInteger []]
     = Inl TypeError"
    using sum_nada_array_spec [of _ _ "\<lambda>a b. PyTuple [a, b]" "AuditSecretInteger [Party ''A'']"
        "[AuditSecretInteger [Party ''B'']]" "PyInt 2" "[SecretInteger []]"] ok1 bad
    by simp
  ultimately show ?thesis using ok bad by simp
qed

section \<open>Properties of the textual summary\<close>

lemma quote_inj: "inj quote"
  by (rule injI) (simp add: quote_def)

lemma sorted_quotes:
  assumes "distinct names"
  shows "sorted_list_of_set (quote ` set names) = sort (map quote names)"
proof -
  have "distinct (map quote names)"
    using assms quote_inj by (simp add: distinct_map inj_on_def inj_def)
  then have "sort (remdups (map quote names)) = sort (map quote names)"
    by (simp only: distinct_remdups_id)
  moreover have "quote ` set names = set (map quote names)"
    by simp
  ultimately show ?thesis
    by (simp only: sorted_list_of_set_sort_remdups)
qed


lemma Nil_less_snoc: "[] < xs @ [t::char]"
  by (cases xs) simp_all

lemma snoc_less:
  "\<forall>c \<in> set p \<union> set q. t \<le> c \<Longrightarrow> (p @ [t] < q @ [t]) = (p < (q::char list))"
proof (induction p arbitrary: q)
  case Nil
  then show ?case by (cases q) (auto simp: Nil_less_snoc)
next
  case (Cons c p)
  show ?case
  proof (cases q)
    case Nil
    then show ?thesis using Cons.prems by auto
  next
    case (Cons d q')
    have "(p @ [t] < q' @ [t]) = (p < q')"
      using Cons.prems Cons by (intro Cons.IH) auto
    then show ?thesis using Cons by simp
  qed
qed

lemma quote_less:
  "\<forall>c \<in> set p \<union> set q. CHR 0x27 \<le> c \<Longrightarrow> (quote p < quote q) = (p < q)"
  using snoc_less [of p q "CHR 0x27"] by (simp add: quote_def)

lemma sort_map_quote:
  assumes "distinct names" and "\<forall>p \<in> set names. \<forall>c \<in> set p. CHR 0x27 \<le> c"
  shows "sort (map quote names) = map quote (sort names)"
proof (rule sorted_distinct_set_unique)
  show "sorted (sort (map quote names))"
    by simp
  show "distinct (sort (map quote names))"
    using assms(1) quote_inj by (simp add: distinct_map inj_on_def inj_def)
  show "distinct (map quote (sort names))"
    using assms(1) quote_inj by (simp add: distinct_map inj_on_def inj_def)
  show "set (sort (map quote names)) = set (map quote (sort names))"
    by simp
  have mono: "quote p \<le> quote q" if "p \<in> set (sort names)" and "q \<in> set (sort names)" and "p \<le> q" for p q
  proof (cases "p = q")
    case True
    then show ?thesis by simp
  next
    case False
    have "\<forall>c \<in> set p \<union> set q. CHR 0x27 \<le> c"
      using that(1,2) assms(2) by auto
    then have "quote p < quote q"
      using quote_less [of p q] that(3) False by simp
    then show ?thesis by simp
  qed
  have "sorted_wrt (\<lambda>p q. quote p \<le> quote q) (sort names)"
    by (rule sorted_wrt_mono_rel [where P = "(\<le>)"]) (use mono in auto)
  then show "sorted (map quote (sort names))"
    by (simp add: sorted_map)
qed

text \<open>
  C8, as stated, fails at an array of two elements with the parties \<open>a\<close> and \<open>a!\<close>:
  the summary is not of the form \<open><len=N> <parties=[...]>\<close>, and its entries are in
  the order of the quoted strings, \<open>'a!'\<close> before \<open>'a'\<close>, not in the order of the
  names.
\<close>

theorem str_differs_from_spec_summary:
  "str \<lparr>data = [AuditSecretInteger [Party ''a''], AuditSecretInteger [Party ''a!'']],
        parties = {''a'', ''a!''}\<rparr>
     = ''NadaArray | len=2 | parties=['a!','a']'' \<and>
   spec_summary 2 {''a'', ''a!''} = ''<len=2> <parties=['a','a!']>'' \<and>
   sorted_list_of_set (quote ` {''a'', ''a!''}) \<noteq> map quote (sorted_list_of_set {''a'', ''a!''})"
proof -
  have q: "sorted_list_of_set (quote ` {''a'', ''a!''}) = [quote ''a!'', quote ''a'']"
    using sorted_quotes [of "[''a'', ''a!'']"] by (simp add: quote_def)
  have n: "sorted_list_of_set {''a'', ''a!''} = [''a'', ''a!'']"
    using sorted_list_of_set_sort_remdups [of "[''a'', ''a!'']"] by simp
  show ?thesis
    by (simp add: str_def parties_str_def spec_summary_def q n digit_def quote_def)
qed

text \<open>
  C8, amended. The summary is \<open>NadaArray | len=N | parties=[q1,...,qk]\<close>, with \<open>N\<close>
  the length in decimal and the entries the party names, each in single quotes,
  separated by commas, sorted lexicographically as quoted strings, whatever order
  the party set is enumerated in. When no name has a character below the single
  quote (a name may contain the single quote itself), that is the lexicographic
  order of the names.
\<close>

theorem str_spec:
  "str a = ''NadaArray | len='' @ str_nat (len a) @ '' | parties=['' @
           join '','' (sorted_list_of_set (quote ` get_parties a)) @ '']'' \<and>
   (\<forall>names. distinct names \<and> set names = get_parties a \<longrightarrow>
      sorted_list_of_set (quote ` get_parties a) = sort (map quote names)) \<and>
   (finite (get_parties a) \<and> (\<forall>p \<in> get_parties a. \<forall>c \<in> set p. CHR 0x27 \<le> c) \<longrightarrow>
      sorted_list_of_set (quote ` get_parties a) = map quote (sorted_list_of_set (get_parties a)))"
proof -
  have fmt: "str a = ''NadaArray | len='' @ str_nat (len a) @ '' | parties=['' @
           join '','' (sorted_list_of_set (quote ` get_parties a)) @ '']''"
    by (simp add: str_def parties_str_def len_def get_parties_def)
  have enum: "sorted_list_of_set (quote ` get_parties a) = sort (map quote names)"
    if "distinct names" and "set names = get_parties a" for names
    using sorted_quotes [OF that(1)] that(2) by simp
  have names: "sorted_list_of_set (quote ` get_parties a) = map quote (sorted_list_of_set (get_parties a))"
    if fin: "finite (get_parties a)" and above: "\<forall>p \<in> get_parties a. \<forall>c \<in> set p. CHR 0x27 \<le> c"
  proof -
    let ?names = "sorted_list_of_set (get_parties a)"
    have d: "distinct ?names" and s: "set ?names = get_parties a"
      using fin by simp_all
    have "sorted_list_of_set (quote ` get_parties a) = sort (map quote ?names)"
      using enum [OF d s] .
    also have "\<dots> = map quote (sort ?names)"
      using above s by (intro sort_map_quote [OF d]) simp
    also have "sort ?names = ?names"
      by (simp add: sorted_sort_id)
    finally show ?thesis .
  qed
  show ?thesis
    using fmt enum names by blast
qed

theorem str_spec_witness:
  "distinct [''b'', ''a''] \<and> set [''b'', ''a''] = get_parties \<lparr>data = [AuditSecretInteger [Party ''b''], AuditSecretInteger [Party ''a'']], parties = {''b'', ''a''}\<rparr> \<and>
   str \<lparr>data = [AuditSecretInteger [Party ''b''], AuditSecretInteger [Party ''a'']], parties = {''b'', ''a''}\<rparr>
     = ''NadaArray | len=2 | parties=['a','b']'' \<and>
   sorted_list_of_set (quote ` get_parties \<lparr>data = [AuditSecretInteger [Party ''b''], AuditSecretInteger [Party ''a'']], parties = {''b'', ''a''}\<rparr>)
     = map quote (sorted_list_of_set (get_parties \<lparr>data = [AuditSecretInteger [Party ''b''], AuditSecretInteger [Party ''a'']], parties = {''b'', ''a''}\<rparr>))"
proof -
  let ?a = "\<lparr>data = [AuditSecretInteger [Party ''b''], AuditSecretInteger [Party ''a'']], parties = {''b'', ''a''}\<rparr>"
  have d: "distinct [''b'', ''a'']"
    by simp
  have s: "set [''b'', ''a''] = get_parties ?a"
    by (simp add: get_parties_def)
  have "sorted_list_of_set (quote ` get_parties ?a) = sort (map quote [''b'', ''a''])"
    using str_spec [of ?a] d s by blast
  also have "\<dots> = [quote ''a'', quote ''b'']"
    by (simp add: quote_def)
  finally have q: "sorted_list_of_set (quote ` get_parties ?a) = [quote ''a'', quote ''b'']" .
  have "str ?a = ''NadaArray | len=2 | parties=['a','b']''"
    using str_spec [of ?a] unfolding q by (simp add: len_def digit_def quote_def)
  moreover have "sorted_list_of_set (quote ` get_parties ?a)
                   = map quote (sorted_list_of_set (get_parties ?a))"
  proof -
    have "finite (get_parties ?a)"
      by (simp add: get_parties_def)
    moreover have "\<forall>p \<in> get_parties ?a. \<forall>c \<in> set p. CHR 0x27 \<le> c"
      by (simp add: get_parties_def)
    ultimately show ?thesis
      using str_spec [of ?a] by blast
  qed
  ultimately show ?thesis using d s by blast
qed

end
